theory Spec2Isabelle
  imports Main "HOL-Library.Word"
begin

unbundle bit_operations_syntax

section \<open>Configuration and constants\<close>

text \<open>
  The embedding follows the library as configured by its header: \<open>UVMAC_TAG_LEN = 64\<close>,
  \<open>UVMAC_NHBYTES = 128\<close>, \<open>UVMAC_PREFER_BIG_ENDIAN = 0\<close>, and the 64-bit path
  (\<open>UVMAC_ARCH_64\<close>) of the NH and polynomial macros. \<open>uint64_t\<close> is \<open>64 word\<close>,
  a byte is \<open>8 word\<close>.
\<close>

type_synonym u8 = "8 word"
type_synonym u32 = "32 word"
type_synonym u64 = "64 word"

definition UVMAC_NHBYTES :: nat where
  "UVMAC_NHBYTES = 128"

definition p64 :: u64 where
  "p64 = 0xfffffffffffffeff"

definition m62 :: u64 where
  "m62 = 0x3fffffffffffffff"

definition m63 :: u64 where
  "m63 = 0x7fffffffffffffff"

definition m64 :: u64 where
  "m64 = 0xffffffffffffffff"

definition mpoly :: u64 where
  "mpoly = 0x1fffffff1fffffff"

text \<open>The prime of the polynomial layer, as a number.\<close>

definition p127 :: nat where
  "p127 = 2 ^ 127 - 1"

text \<open>The number held by a register pair \<open>(hi, lo)\<close>.\<close>

definition val128 :: "u64 \<times> u64 \<Rightarrow> nat" where
  "val128 r = unat (fst r) * 2 ^ 64 + unat (snd r)"

section \<open>Faults\<close>

text \<open>
  A read beyond the end of a buffer is undefined behaviour in C; the model makes it the
  result \<open>Inl OutOfBounds\<close>. \<open>get64bitsOfKey\<close> prints a message and calls
  \<open>assert(0)\<close> when no key is left, which terminates the process: that is
  \<open>Inl ProcessAborted\<close>.
\<close>

datatype fault = OutOfBounds | ProcessAborted

section \<open>Arithmetic primitives\<close>

text \<open>
  \<open>ADD128(rh,rl,ih,il)\<close>: \<open>rl += il; if (rl < il) rh++; rh += ih\<close>
  (the \<open>addq\<close>/\<open>adcq\<close> pair computes the same). The updated pair is returned.
\<close>

definition ADD128 :: "u64 \<Rightarrow> u64 \<Rightarrow> u64 \<Rightarrow> u64 \<Rightarrow> u64 \<times> u64" where
  "ADD128 rh rl ih il =
     (let rl' = rl + il;
          rh' = (if rl' < il then rh + 1 else rh)
      in (rh' + ih, rl'))"

text \<open>
  \<open>MUL64(rh,rl,i1,i2)\<close>: the \<open>mulq\<close> instruction, the full 128-bit product of two
  64-bit operands, high half in \<open>rh\<close>, low half in \<open>rl\<close>. On this path
  \<open>PMUL64\<close> is \<open>MUL64\<close>.
\<close>

definition MUL64 :: "u64 \<Rightarrow> u64 \<Rightarrow> u64 \<times> u64" where
  "MUL64 i1 i2 =
     (let p = unat i1 * unat i2
      in (of_nat (p div 2 ^ 64), of_nat (p mod 2 ^ 64)))"

definition PMUL64 :: "u64 \<Rightarrow> u64 \<Rightarrow> u64 \<times> u64" where
  "PMUL64 i1 i2 = MUL64 i1 i2"

section \<open>Memory reads\<close>

text \<open>
  A pointer into a byte buffer is the list of the bytes from the pointer to the end of
  the buffer; advancing the pointer by \<open>n\<close> bytes is \<open>drop n\<close>.
\<close>

definition le64 :: "u8 list \<Rightarrow> u64" where
  "le64 bs = foldr (\<lambda>b w. ucast b OR push_bit 8 w) bs 0"

definition be64 :: "u8 list \<Rightarrow> u64" where
  "be64 bs = foldl (\<lambda>w b. push_bit 8 w OR ucast b) 0 bs"

text \<open>\<open>get64LE(ptr)\<close> and \<open>get64BE(ptr)\<close>: the eight bytes at \<open>ptr\<close>.\<close>

definition get64LE :: "u8 list \<Rightarrow> fault + u64" where
  "get64LE ptr = (if 8 \<le> length ptr then Inr (le64 (take 8 ptr)) else Inl OutOfBounds)"

definition get64BE :: "u8 list \<Rightarrow> fault + u64" where
  "get64BE ptr = (if 8 \<le> length ptr then Inr (be64 (take 8 ptr)) else Inl OutOfBounds)"

text \<open>\<open>get64PE\<close> is \<open>get64LE\<close> since \<open>UVMAC_PREFER_BIG_ENDIAN\<close> is 0;
  \<open>get64PE((mp)+i)\<close> with \<open>mp\<close> a \<open>uint64_t *\<close> reads at byte offset \<open>8 * i\<close>.\<close>

definition get64PE :: "u8 list \<Rightarrow> nat \<Rightarrow> fault + u64" where
  "get64PE mp i = get64LE (drop (8 * i) mp)"

text \<open>\<open>kp[i]\<close> for a pointer \<open>kp\<close> into an array of 64-bit words.\<close>

definition rd :: "u64 list \<Rightarrow> nat \<Rightarrow> fault + u64" where
  "rd kp i = (if i < length kp then Inr (kp ! i) else Inl OutOfBounds)"

section \<open>NH\<close>

text \<open>One term of the NH sum:
  \<open>MUL64(th,tl,get64PE((mp)+i)+(kp)[i],get64PE((mp)+i+1)+(kp)[i+1])\<close>.\<close>

definition nh_term :: "u8 list \<Rightarrow> u64 list \<Rightarrow> nat \<Rightarrow> fault + u64 \<times> u64" where
  "nh_term mp kp i =
     (case get64PE mp i of Inl e \<Rightarrow> Inl e | Inr m0 \<Rightarrow>
     (case rd kp i of Inl e \<Rightarrow> Inl e | Inr k0 \<Rightarrow>
     (case get64PE mp (i + 1) of Inl e \<Rightarrow> Inl e | Inr m1 \<Rightarrow>
     (case rd kp (i + 1) of Inl e \<Rightarrow> Inl e | Inr k1 \<Rightarrow>
        Inr (MUL64 (m0 + k0) (m1 + k1))))))"

text \<open>One \<open>MUL64\<close>/\<open>ADD128\<close> pair of a loop body.\<close>

definition nh_acc :: "u8 list \<Rightarrow> u64 list \<Rightarrow> nat \<Rightarrow> u64 \<times> u64 \<Rightarrow> fault + u64 \<times> u64" where
  "nh_acc mp kp i r =
     (case nh_term mp kp i of Inl e \<Rightarrow> Inl e
      | Inr t \<Rightarrow> Inr (ADD128 (fst r) (snd r) (fst t) (snd t)))"

text \<open>\<open>nh_16\<close>: \<open>rh = rl = 0; for (i = 0; i < nw; i += 2) { ... }\<close>.\<close>

function nh_16_loop :: "u8 list \<Rightarrow> u64 list \<Rightarrow> nat \<Rightarrow> nat \<Rightarrow> u64 \<times> u64 \<Rightarrow> fault + u64 \<times> u64" where
  "nh_16_loop mp kp nw i r =
     (if i < nw then
        (case nh_acc mp kp i r of Inl e \<Rightarrow> Inl e
         | Inr r' \<Rightarrow> nh_16_loop mp kp nw (i + 2) r')
      else Inr r)"
  by pat_completeness auto
termination
  by (relation "measure (\<lambda>(mp, kp, nw, i, r). nw - i)") auto

declare nh_16_loop.simps [simp del]

definition nh_16 :: "u8 list \<Rightarrow> u64 list \<Rightarrow> nat \<Rightarrow> fault + u64 \<times> u64" where
  "nh_16 mp kp nw = nh_16_loop mp kp nw 0 (0, 0)"

text \<open>\<open>nh_vhash_nhbytes\<close> (defined since \<open>UVMAC_NHBYTES >= 64\<close>): 64 bytes of
  message in each round, \<open>for (i = 0; i < nw; i += 8)\<close>.\<close>

function nh_vhash_nhbytes_loop ::
  "u8 list \<Rightarrow> u64 list \<Rightarrow> nat \<Rightarrow> nat \<Rightarrow> u64 \<times> u64 \<Rightarrow> fault + u64 \<times> u64" where
  "nh_vhash_nhbytes_loop mp kp nw i r =
     (if i < nw then
        (case nh_acc mp kp i r of Inl e \<Rightarrow> Inl e | Inr r1 \<Rightarrow>
        (case nh_acc mp kp (i + 2) r1 of Inl e \<Rightarrow> Inl e | Inr r2 \<Rightarrow>
        (case nh_acc mp kp (i + 4) r2 of Inl e \<Rightarrow> Inl e | Inr r3 \<Rightarrow>
        (case nh_acc mp kp (i + 6) r3 of Inl e \<Rightarrow> Inl e | Inr r4 \<Rightarrow>
           nh_vhash_nhbytes_loop mp kp nw (i + 8) r4))))
      else Inr r)"
  by pat_completeness auto
termination
  by (relation "measure (\<lambda>(mp, kp, nw, i, r). nw - i)") auto

declare nh_vhash_nhbytes_loop.simps [simp del]

definition nh_vhash_nhbytes :: "u8 list \<Rightarrow> u64 list \<Rightarrow> nat \<Rightarrow> fault + u64 \<times> u64" where
  "nh_vhash_nhbytes mp kp nw = nh_vhash_nhbytes_loop mp kp nw 0 (0, 0)"

section \<open>The polynomial step\<close>

text \<open>\<open>poly_step(ah, al, kh, kl, mh, ml)\<close>, statement by statement; the pair
  \<open>(ah, al)\<close> it leaves is returned.\<close>

definition poly_step :: "u64 \<times> u64 \<Rightarrow> u64 \<times> u64 \<Rightarrow> u64 \<times> u64 \<Rightarrow> u64 \<times> u64" where
  "poly_step a k m =
     (case (a, k, m) of ((ah, al), (kh, kl), (mh, ml)) \<Rightarrow>
      let z = 0;
          (t3h, t3l) = PMUL64 al kh;
          (t2h, t2l) = PMUL64 ah kl;
          (t1h, t1l) = PMUL64 ah (2 * kh);
          (ah, al) = PMUL64 al kl;
          (ah, al) = ADD128 ah al t1h t1l;
          (t2h, t2l) = ADD128 t2h t2l t3h t3l;
          (t2h, ah) = ADD128 t2h ah z t2l;
          t2h = 2 * t2h + drop_bit 63 ah;
          ah = ah AND m63;
          (ah, al) = ADD128 ah al mh ml;
          (ah, al) = ADD128 ah al z t2h
      in (ah, al))"

section \<open>The context\<close>

text \<open>\<open>uvmax_ctx_t\<close> for a 64-bit tag: \<open>polykey\<close>, \<open>l3key\<close> and \<open>polytmp\<close> are
  arrays of two words, \<open>nhkey\<close> an array of \<open>UVMAC_NHBYTES/8\<close> words.\<close>

record uvmax_ctx_t =
  nhkey :: "u64 list"
  polykey :: "u64 \<times> u64"
  l3key :: "u64 \<times> u64"
  polytmp :: "u64 \<times> u64"
  first_block_processed :: bool

definition vhash_abort :: "uvmax_ctx_t \<Rightarrow> uvmax_ctx_t" where
  "vhash_abort ctx = ctx\<lparr>polytmp := polykey ctx, first_block_processed := False\<rparr>"

section \<open>The third layer\<close>

text \<open>\<open>l3hash\<close>. A C comparison is 0 or 1, so \<open>(0 - (x < y)) & 257\<close> is 257 when
  \<open>x < y\<close> and 0 otherwise.\<close>

definition l3hash :: "u64 \<Rightarrow> u64 \<Rightarrow> u64 \<Rightarrow> u64 \<Rightarrow> u64 \<Rightarrow> u64" where
  "l3hash p1 p2 k1 k2 len =
     (let z = 0;
          t = drop_bit 63 p1;
          p1 = p1 AND m63;
          (p1, p2) = ADD128 p1 p2 len t;
          t = (if p1 > m63 then 1 else 0) + (if p1 = m63 \<and> p2 = m64 then 1 else 0);
          (p1, p2) = ADD128 p1 p2 z t;
          p1 = p1 AND m63;
          t = p1 + drop_bit 32 p2;
          t = t + drop_bit 32 t;
          t = t + (if (ucast t :: u32) > 0xfffffffe then 1 else 0);
          p1 = p1 + drop_bit 32 t;
          p2 = p2 + push_bit 32 p1;
          p1 = p1 + k1;
          p1 = p1 + (if p1 < k1 then 257 else 0);
          p2 = p2 + k2;
          p2 = p2 + (if p2 < k2 then 257 else 0);
          (rh, rl) = MUL64 p1 p2;
          t = drop_bit 56 rh;
          (t, rl) = ADD128 t rl z rh;
          rh = push_bit 8 rh;
          (t, rl) = ADD128 t rl z rh;
          t = t + push_bit 8 t;
          rl = rl + t;
          rl = rl + (if rl < t then 257 else 0);
          rl = rl + (if rl > p64 - 1 then 257 else 0)
      in rl)"

section \<open>The orchestrator\<close>

text \<open>The loop of \<open>vhash_update\<close> and of \<open>vhash\<close> over full blocks:
  \<open>while (i--) { nh_vhash_nhbytes(mptr,kptr,UVMAC_NHBYTES/8,rh,rl); rh &= m62;
  poly_step(ch,cl,pkh,pkl,rh,rl); mptr += (UVMAC_NHBYTES/sizeof(uint64_t)); }\<close>.
  It returns the accumulator and the advanced pointer.\<close>

fun poly_blocks ::
  "nat \<Rightarrow> u8 list \<Rightarrow> u64 list \<Rightarrow> u64 \<times> u64 \<Rightarrow> u64 \<times> u64 \<Rightarrow> fault + (u64 \<times> u64) \<times> u8 list" where
  "poly_blocks 0 mptr kptr pk c = Inr (c, mptr)"
| "poly_blocks (Suc i) mptr kptr pk c =
     (case nh_vhash_nhbytes mptr kptr (UVMAC_NHBYTES div 8) of Inl e \<Rightarrow> Inl e
      | Inr (rh, rl) \<Rightarrow>
          poly_blocks i (drop (8 * (UVMAC_NHBYTES div 8)) mptr) kptr pk
            (poly_step c pk (rh AND m62, rl)))"

text \<open>
  \<open>vhash_update\<close>. When the context is fresh and \<open>mbytes < UVMAC_NHBYTES\<close> (which the
  header forbids), \<open>i\<close> is 0, the first-block branch leaves it at \<open>-1\<close> and
  \<open>while (i--)\<close> then walks past the end of every buffer: \<open>Inl OutOfBounds\<close>.
\<close>

definition vhash_update :: "u8 list \<Rightarrow> nat \<Rightarrow> uvmax_ctx_t \<Rightarrow> fault + uvmax_ctx_t" where
  "vhash_update m mbytes ctx =
     (let kptr = nhkey ctx;
          pk = polykey ctx;
          mptr = m;
          i = mbytes div UVMAC_NHBYTES;
          c = polytmp ctx
      in if \<not> first_block_processed ctx then
           (case nh_vhash_nhbytes mptr kptr (UVMAC_NHBYTES div 8) of Inl e \<Rightarrow> Inl e
            | Inr (rh, rl) \<Rightarrow>
                let rh = rh AND m62;
                    c = ADD128 (fst c) (snd c) rh rl;
                    mptr = drop (8 * (UVMAC_NHBYTES div 8)) mptr
                in if i = 0 then Inl OutOfBounds
                   else (case poly_blocks (i - 1) mptr kptr pk c of Inl e \<Rightarrow> Inl e
                         | Inr (c, mptr) \<Rightarrow>
                             Inr (ctx\<lparr>polytmp := c, first_block_processed := True\<rparr>)))
         else
           (case poly_blocks i mptr kptr pk c of Inl e \<Rightarrow> Inl e
            | Inr (c, mptr) \<Rightarrow> Inr (ctx\<lparr>polytmp := c\<rparr>)))"

text \<open>The label \<open>do_l3\<close> of \<open>vhash\<close>: \<open>vhash_abort(ctx); remaining *= 8;
  return l3hash(ch, cl, ctx->l3key[0], ctx->l3key[1], remaining)\<close>.\<close>

definition do_l3 :: "u64 \<times> u64 \<Rightarrow> nat \<Rightarrow> uvmax_ctx_t \<Rightarrow> u64 \<times> uvmax_ctx_t" where
  "do_l3 c remaining ctx =
     (let ctx' = vhash_abort ctx;
          remaining = remaining * 8
      in (l3hash (fst c) (snd c) (fst (l3key ctx')) (snd (l3key ctx')) (of_nat remaining), ctx'))"

text \<open>
  \<open>vhash\<close> from its \<open>while (i--)\<close> loop to the label \<open>do_l3\<close>: the remaining
  full blocks, then \<open>if (remaining) { nh_16(mptr,kptr,2*((remaining+15)/16),rh,rl);
  rh &= m62; poly_step(ch,cl,pkh,pkl,rh,rl); }\<close>.
\<close>

definition vhash_tail ::
  "u64 list \<Rightarrow> u64 \<times> u64 \<Rightarrow> nat \<Rightarrow> nat \<Rightarrow> u8 list \<Rightarrow> u64 \<times> u64 \<Rightarrow> fault + u64 \<times> u64" where
  "vhash_tail kptr pk remaining i mptr c =
     (case poly_blocks i mptr kptr pk c of Inl e \<Rightarrow> Inl e
      | Inr (c, mptr) \<Rightarrow>
          if remaining \<noteq> 0 then
            (case nh_16 mptr kptr (2 * ((remaining + 15) div 16)) of Inl e \<Rightarrow> Inl e
             | Inr (rh, rl) \<Rightarrow> Inr (poly_step c pk (rh AND m62, rl)))
          else Inr c)"

text \<open>The accumulator that \<open>vhash\<close> hands to \<open>do_l3\<close>: the four branches on
  \<open>first_block_processed\<close>, \<open>i\<close> and \<open>remaining\<close>.\<close>

definition vhash_poly :: "u8 list \<Rightarrow> nat \<Rightarrow> uvmax_ctx_t \<Rightarrow> fault + u64 \<times> u64" where
  "vhash_poly m mbytes ctx =
     (let kptr = nhkey ctx;
          pk = polykey ctx;
          mptr = m;
          i = mbytes div UVMAC_NHBYTES;
          remaining = mbytes mod UVMAC_NHBYTES
      in if first_block_processed ctx then vhash_tail kptr pk remaining i mptr (polytmp ctx)
         else if i \<noteq> 0 then
           (case nh_vhash_nhbytes mptr kptr (UVMAC_NHBYTES div 8) of Inl e \<Rightarrow> Inl e
            | Inr (ch, cl) \<Rightarrow>
                let ch = ch AND m62;
                    c = ADD128 ch cl (fst pk) (snd pk)
                in vhash_tail kptr pk remaining (i - 1)
                     (drop (8 * (UVMAC_NHBYTES div 8)) mptr) c)
         else if remaining \<noteq> 0 then
           (case nh_16 mptr kptr (2 * ((remaining + 15) div 16)) of Inl e \<Rightarrow> Inl e
            | Inr (ch, cl) \<Rightarrow>
                let ch = ch AND m62
                in Inr (ADD128 ch cl (fst pk) (snd pk)))
         else Inr pk)"

definition vhash :: "u8 list \<Rightarrow> nat \<Rightarrow> uvmax_ctx_t \<Rightarrow> fault + u64 \<times> uvmax_ctx_t" where
  "vhash m mbytes ctx =
     (case vhash_poly m mbytes ctx of Inl e \<Rightarrow> Inl e
      | Inr c \<Rightarrow> Inr (do_l3 c (mbytes mod UVMAC_NHBYTES) ctx))"

text \<open>
  \<open>xvhash\<close>, the variant that hands the full blocks to \<open>vhash_update\<close>. Its
  \<open>int i = mbytes - remaining\<close> is negative from \<open>2^31\<close> on, and \<open>m+i\<close> then
  points before the buffer: the pointer with nothing readable behind it, \<open>[]\<close>.
\<close>

definition xvhash_poly :: "u8 list \<Rightarrow> nat \<Rightarrow> uvmax_ctx_t \<Rightarrow> fault + (u64 \<times> u64) \<times> uvmax_ctx_t" where
  "xvhash_poly m mbytes ctx =
     (let remaining = mbytes mod UVMAC_NHBYTES;
          i = mbytes - remaining;
          mptr = (if i < 2 ^ 31 then drop i m else [])
      in case (if i \<noteq> 0 then vhash_update m i ctx else Inr ctx) of Inl e \<Rightarrow> Inl e
         | Inr ctx \<Rightarrow>
             let kptr = nhkey ctx;
                 c = polytmp ctx
             in if remaining \<noteq> 0 then
                  (case nh_16 mptr kptr (2 * ((remaining + 15) div 16)) of Inl e \<Rightarrow> Inl e
                   | Inr (rh, rl) \<Rightarrow>
                       let rh = rh AND m62
                       in if i \<noteq> 0 then Inr (poly_step c (polykey ctx) (rh, rl), ctx)
                          else Inr (ADD128 (fst c) (snd c) rh rl, ctx))
                else Inr (c, ctx))"

definition xvhash :: "u8 list \<Rightarrow> nat \<Rightarrow> uvmax_ctx_t \<Rightarrow> fault + u64 \<times> uvmax_ctx_t" where
  "xvhash m mbytes ctx =
     (case xvhash_poly m mbytes ctx of Inl e \<Rightarrow> Inl e
      | Inr (c, ctx) \<Rightarrow> Inr (do_l3 c (mbytes mod UVMAC_NHBYTES) ctx))"

section \<open>The pad key and the tag\<close>

text \<open>
  \<open>get64bitsOfKey\<close>: the test \<open>(*key_position) + 1 > key_length\<close> is on
  \<open>uint64_t\<close>; the pointer returned is \<open>consumable_key + (*key_position)\<close>, and the
  position is stored incremented. The result is the pointer and the new position.
\<close>

definition get64bitsOfKey :: "u8 list \<Rightarrow> u64 \<Rightarrow> u64 \<Rightarrow> fault + u8 list \<times> u64" where
  "get64bitsOfKey consumable_key key_length key_position =
     (if key_position + 1 > key_length then Inl ProcessAborted
      else Inr (drop (8 * unat key_position) consumable_key, key_position + 1))"

text \<open>\<open>uvmac\<close> for a 64-bit tag; the result is the tag, the context and the key
  position after the call.\<close>

definition uvmac ::
  "u8 list \<Rightarrow> nat \<Rightarrow> uvmax_ctx_t \<Rightarrow> u8 list \<Rightarrow> u64 \<Rightarrow> u64 \<Rightarrow> fault + u64 \<times> uvmax_ctx_t \<times> u64" where
  "uvmac m mbytes ctx consumable_key consumable_key_length consumable_key_position =
     (case get64bitsOfKey consumable_key consumable_key_length consumable_key_position of
        Inl e \<Rightarrow> Inl e
      | Inr (out_p, pos') \<Rightarrow>
          (case get64BE out_p of Inl e \<Rightarrow> Inl e
           | Inr p \<Rightarrow>
               (case vhash m mbytes ctx of Inl e \<Rightarrow> Inl e
                | Inr (h, ctx') \<Rightarrow> Inr (p + h, ctx', pos'))))"

section \<open>The key schedule\<close>

text \<open>\<open>out = get64bitsOfKey((uint64_t*) user_key, key_length, &key_position)\<close>
  followed by \<open>get64BE(out)\<close>: the next word of the key and the new position.\<close>

definition next_key_word :: "u8 list \<Rightarrow> u64 \<Rightarrow> u64 \<Rightarrow> fault + u64 \<times> u64" where
  "next_key_word user_key key_length key_position =
     (case get64bitsOfKey user_key key_length key_position of Inl e \<Rightarrow> Inl e
      | Inr (out, pos') \<Rightarrow>
          (case get64BE out of Inl e \<Rightarrow> Inl e | Inr w \<Rightarrow> Inr (w, pos')))"

text \<open>\<open>for (i = 0; i < n; i++) { out = get64bitsOfKey(...); a[i] = get64BE(out); }\<close>:
  the array filled, in index order, and the new position.\<close>

fun fill_words :: "nat \<Rightarrow> u8 list \<Rightarrow> u64 \<Rightarrow> u64 \<Rightarrow> fault + u64 list \<times> u64" where
  "fill_words 0 user_key key_length key_position = Inr ([], key_position)"
| "fill_words (Suc n) user_key key_length key_position =
     (case next_key_word user_key key_length key_position of Inl e \<Rightarrow> Inl e
      | Inr (w, pos') \<Rightarrow>
          (case fill_words n user_key key_length pos' of Inl e \<Rightarrow> Inl e
           | Inr (ws, pos'') \<Rightarrow> Inr (w # ws, pos'')))"

text \<open>\<open>do { out = get64bitsOfKey(...); ctx->l3key[i] = get64BE(out); }
  while (ctx->l3key[i] >= p64)\<close>. The key length of \<open>uvmac_set_key\<close> is a
  \<open>uint32_t\<close>.\<close>

function l3_draw :: "u8 list \<Rightarrow> u32 \<Rightarrow> u64 \<Rightarrow> fault + u64 \<times> u64" where
  "l3_draw user_key key_length key_position =
     (case next_key_word user_key (ucast key_length) key_position of Inl e \<Rightarrow> Inl e
      | Inr (w, pos') \<Rightarrow>
          if w \<ge> p64 then l3_draw user_key key_length pos' else Inr (w, pos'))"
  by pat_completeness auto
termination
proof (relation "measure (\<lambda>(k, len, pos).
         if unat pos \<le> unat len then unat len - unat pos else unat len + 1)", goal_cases)
  case 1
  show ?case by simp
next
  case (2 user_key key_length key_position x2 w pos')
  then have nk: "next_key_word user_key (ucast key_length) key_position = Inr (w, pos')"
    by simp
  then have b: "pos' = key_position + 1"
    and le: "key_position + 1 \<le> (ucast key_length :: u64)"
    by (auto simp: next_key_word_def get64bitsOfKey_def split: if_splits sum.splits)
  have len32: "unat key_length < 2 ^ 32"
    using unsigned_less [of key_length, where 'a = nat] by simp
  have ul: "unat (ucast key_length :: u64) = unat key_length"
    using len32 by (simp add: unsigned_ucast_eq take_bit_nat_eq_self_iff)
  show ?case
  proof (cases "key_position = - 1")
    case True
    have "unat (- 1 :: u64) = 2 ^ 64 - 1"
      by (simp add: unsigned_minus_1_eq_mask mask_eq_exp_minus_1)
    then show ?thesis using b True len32 by simp
  next
    case False
    then have "1 + key_position \<noteq> 0"
      using add_eq_0_iff [of 1 key_position] by auto
    then have "unat (key_position + 1) = unat key_position + 1"
      using unatSuc [of key_position] by (simp add: add.commute)
    then show ?thesis using le b ul by (auto simp: word_le_nat_alt)
  qed
qed

declare l3_draw.simps [simp del]

text \<open>
  \<open>uvmac_set_key\<close>: \<open>sizeof(ctx->nhkey)/8\<close> is \<open>UVMAC_NHBYTES/8\<close>, and
  \<open>polykey\<close> and \<open>l3key\<close> have two words each.
\<close>

definition uvmac_set_key :: "u8 list \<Rightarrow> u32 \<Rightarrow> uvmax_ctx_t \<Rightarrow> fault + uvmax_ctx_t" where
  "uvmac_set_key user_key key_length ctx =
     (let len = ucast key_length;
          key_position = 0
      in case fill_words (UVMAC_NHBYTES div 8) user_key len key_position of Inl e \<Rightarrow> Inl e
         | Inr (nk, key_position) \<Rightarrow>
        (case next_key_word user_key len key_position of Inl e \<Rightarrow> Inl e
         | Inr (pk0, key_position) \<Rightarrow>
        (case next_key_word user_key len key_position of Inl e \<Rightarrow> Inl e
         | Inr (pk1, key_position) \<Rightarrow>
        (case l3_draw user_key key_length key_position of Inl e \<Rightarrow> Inl e
         | Inr (l0, key_position) \<Rightarrow>
        (case l3_draw user_key key_length key_position of Inl e \<Rightarrow> Inl e
         | Inr (l1, key_position) \<Rightarrow>
            Inr (ctx\<lparr>nhkey := nk,
                      polykey := (pk0 AND mpoly, pk1 AND mpoly),
                      polytmp := (pk0 AND mpoly, pk1 AND mpoly),
                      l3key := (l0, l1),
                      first_block_processed := False\<rparr>))))))"

section \<open>Concrete inputs\<close>

text \<open>The key of the library's self test, \<open>"abcdefgh"\<close> twenty times; the same bytes
  serve there as the pad key.\<close>

definition key_abc :: "u8 list" where
  "key_abc =
     [0x61, 0x62, 0x63, 0x64, 0x65, 0x66, 0x67, 0x68, 0x61, 0x62, 0x63, 0x64, 0x65, 0x66, 0x67, 0x68,
      0x61, 0x62, 0x63, 0x64, 0x65, 0x66, 0x67, 0x68, 0x61, 0x62, 0x63, 0x64, 0x65, 0x66, 0x67, 0x68,
      0x61, 0x62, 0x63, 0x64, 0x65, 0x66, 0x67, 0x68, 0x61, 0x62, 0x63, 0x64, 0x65, 0x66, 0x67, 0x68,
      0x61, 0x62, 0x63, 0x64, 0x65, 0x66, 0x67, 0x68, 0x61, 0x62, 0x63, 0x64, 0x65, 0x66, 0x67, 0x68,
      0x61, 0x62, 0x63, 0x64, 0x65, 0x66, 0x67, 0x68, 0x61, 0x62, 0x63, 0x64, 0x65, 0x66, 0x67, 0x68,
      0x61, 0x62, 0x63, 0x64, 0x65, 0x66, 0x67, 0x68, 0x61, 0x62, 0x63, 0x64, 0x65, 0x66, 0x67, 0x68,
      0x61, 0x62, 0x63, 0x64, 0x65, 0x66, 0x67, 0x68, 0x61, 0x62, 0x63, 0x64, 0x65, 0x66, 0x67, 0x68,
      0x61, 0x62, 0x63, 0x64, 0x65, 0x66, 0x67, 0x68, 0x61, 0x62, 0x63, 0x64, 0x65, 0x66, 0x67, 0x68,
      0x61, 0x62, 0x63, 0x64, 0x65, 0x66, 0x67, 0x68, 0x61, 0x62, 0x63, 0x64, 0x65, 0x66, 0x67, 0x68,
      0x61, 0x62, 0x63, 0x64, 0x65, 0x66, 0x67, 0x68, 0x61, 0x62, 0x63, 0x64, 0x65, 0x66, 0x67, 0x68]"

text \<open>A context before \<open>uvmac_set_key\<close>, and the one the self test's key produces.\<close>

definition ctx_blank :: uvmax_ctx_t where
  "ctx_blank = \<lparr>nhkey = [], polykey = (0, 0), l3key = (0, 0), polytmp = (0, 0),
     first_block_processed = False\<rparr>"

definition ctx_abc :: uvmax_ctx_t where
  "ctx_abc = \<lparr>nhkey =
     [0x6162636465666768, 0x6162636465666768, 0x6162636465666768, 0x6162636465666768,
      0x6162636465666768, 0x6162636465666768, 0x6162636465666768, 0x6162636465666768,
      0x6162636465666768, 0x6162636465666768, 0x6162636465666768, 0x6162636465666768,
      0x6162636465666768, 0x6162636465666768, 0x6162636465666768, 0x6162636465666768],
     polykey = (0x0162636405666768, 0x0162636405666768),
     l3key = (0x6162636465666768, 0x6162636465666768),
     polytmp = (0x0162636405666768, 0x0162636405666768),
     first_block_processed = False\<rparr>"

text \<open>An all-zero key of twenty words and its context.\<close>

definition key_zero :: "u8 list" where
  "key_zero =
     [0, 0, 0, 0, 0, 0, 0, 0, 0, 0, 0, 0, 0, 0, 0, 0, 0, 0, 0, 0,
      0, 0, 0, 0, 0, 0, 0, 0, 0, 0, 0, 0, 0, 0, 0, 0, 0, 0, 0, 0,
      0, 0, 0, 0, 0, 0, 0, 0, 0, 0, 0, 0, 0, 0, 0, 0, 0, 0, 0, 0,
      0, 0, 0, 0, 0, 0, 0, 0, 0, 0, 0, 0, 0, 0, 0, 0, 0, 0, 0, 0,
      0, 0, 0, 0, 0, 0, 0, 0, 0, 0, 0, 0, 0, 0, 0, 0, 0, 0, 0, 0,
      0, 0, 0, 0, 0, 0, 0, 0, 0, 0, 0, 0, 0, 0, 0, 0, 0, 0, 0, 0,
      0, 0, 0, 0, 0, 0, 0, 0, 0, 0, 0, 0, 0, 0, 0, 0, 0, 0, 0, 0,
      0, 0, 0, 0, 0, 0, 0, 0, 0, 0, 0, 0, 0, 0, 0, 0, 0, 0, 0, 0]"

definition ctx_zero :: uvmax_ctx_t where
  "ctx_zero = \<lparr>nhkey = [0, 0, 0, 0, 0, 0, 0, 0, 0, 0, 0, 0, 0, 0, 0, 0],
     polykey = (0, 0), l3key = (0, 0), polytmp = (0, 0),
     first_block_processed = False\<rparr>"

text \<open>The message \<open>"abc"\<close> in a buffer zero-filled to 16 bytes.\<close>

definition msg_abc :: "u8 list" where
  "msg_abc = [0x61, 0x62, 0x63, 0, 0, 0, 0, 0, 0, 0, 0, 0, 0, 0, 0, 0]"

section \<open>Arithmetic of the primitives\<close>

lemma val128_bound: "val128 r < 2 ^ 128"
proof -
  have "unat (fst r) < 2 ^ 64" "unat (snd r) < 2 ^ 64"
    using unsigned_less [of "fst r", where 'a = nat] unsigned_less [of "snd r", where 'a = nat] by simp_all
  then show ?thesis unfolding val128_def by simp
qed

lemma val128_MUL64: "val128 (MUL64 a b) = unat a * unat b"
proof -
  have a: "unat a < 2 ^ 64" and b: "unat b < 2 ^ 64"
    using unsigned_less [of a, where 'a = nat] unsigned_less [of b, where 'a = nat] by simp_all
  have "unat a * unat b < 2 ^ 64 * 2 ^ 64"
    using a b by (intro mult_strict_mono) simp_all
  then have "(unat a * unat b) div 2 ^ 64 < 2 ^ 64"
    by (simp add: less_mult_imp_div_less)
  then show ?thesis
    by (simp add: val128_def MUL64_def Let_def unat_of_nat take_bit_nat_eq_self_iff)
qed

lemma val128_ADD128:
  "val128 (ADD128 rh rl ih il) = (val128 (rh, rl) + val128 (ih, il)) mod 2 ^ 128"
proof -
  define a b c d where "a = unat rh" and "b = unat rl" and "c = unat ih" and "d = unat il"
  have bd: "a < 2 ^ 64" "b < 2 ^ 64" "c < 2 ^ 64" "d < 2 ^ 64"
    using unsigned_less [of rh, where 'a = nat] unsigned_less [of rl, where 'a = nat]
      unsigned_less [of ih, where 'a = nat] unsigned_less [of il, where 'a = nat]
    by (simp_all add: a_def b_def c_def d_def)
  have lo: "unat (rl + il) = (b + d) mod 2 ^ 64"
    by (simp add: unat_word_ariths b_def d_def)
  have carry: "rl + il < il \<longleftrightarrow> 2 ^ 64 \<le> b + d"
  proof
    assume "rl + il < il"
    then have "(b + d) mod 2 ^ 64 < d" using lo by (simp add: word_less_nat_alt d_def)
    then show "2 ^ 64 \<le> b + d" by (cases "b + d < 2 ^ 64") auto
  next
    assume h: "2 ^ 64 \<le> b + d"
    then have "(b + d) mod 2 ^ 64 = b + d - 2 ^ 64"
      using bd by (simp add: mod_if)
    then show "rl + il < il" using lo bd h by (simp add: word_less_nat_alt d_def)
  qed
  have hi: "unat ((if rl + il < il then rh + 1 else rh) + ih) = (a + (b + d) div 2 ^ 64 + c) mod 2 ^ 64"
  proof (cases "2 ^ 64 \<le> b + d")
    case True
    then have "(b + d) div 2 ^ 64 = 1" using bd by (simp add: div_eq_dividend_iff le_div_geq)
    then show ?thesis using True carry by (simp add: unat_word_ariths a_def c_def mod_simps)
  next
    case False
    then have "(b + d) div 2 ^ 64 = 0" by simp
    then show ?thesis using False carry by (simp add: unat_word_ariths a_def c_def mod_simps)
  qed
  have "val128 (ADD128 rh rl ih il) = ((a + (b + d) div 2 ^ 64 + c) mod 2 ^ 64) * 2 ^ 64 + (b + d) mod 2 ^ 64"
    using hi lo by (simp add: val128_def ADD128_def Let_def)
  also have "\<dots> = ((a + c) * 2 ^ 64 + (b + d)) mod 2 ^ 128"
  proof -
    have e: "(2::nat) ^ 128 = 2 ^ 64 * 2 ^ 64" by simp
    have "((a + c) * 2 ^ 64 + (b + d)) mod (2 ^ 64 * 2 ^ 64)
        = 2 ^ 64 * ((((a + c) * 2 ^ 64 + (b + d)) div 2 ^ 64) mod 2 ^ 64) + ((a + c) * 2 ^ 64 + (b + d)) mod 2 ^ 64"
      by (rule mod_mult2_eq)
    moreover have "((a + c) * 2 ^ 64 + (b + d)) div 2 ^ 64 = a + c + (b + d) div 2 ^ 64"
      by (rule div_mult_self3) simp
    moreover have "((a + c) * 2 ^ 64 + (b + d)) mod 2 ^ 64 = (b + d) mod 2 ^ 64"
      by (rule mod_mult_self3)
    ultimately show ?thesis unfolding e by (simp only: ac_simps)
  qed
  also have "\<dots> = (val128 (rh, rl) + val128 (ih, il)) mod 2 ^ 128"
    by (simp add: val128_def a_def b_def c_def d_def algebra_simps)
  finally show ?thesis .
qed

lemma unat_and_mask: "unat (x AND mask n :: u64) = unat x mod 2 ^ n"
proof -
  have "x AND mask n = take_bit n x" by (simp only: take_bit_eq_mask)
  moreover have "unat (take_bit n x) = take_bit n (unat x)" by (rule unsigned_take_bit_eq)
  ultimately show ?thesis by (simp only: take_bit_eq_mod)
qed

lemma unat_and_m63: "unat (x AND m63) = unat x mod 2 ^ 63"
proof -
  have "m63 = mask 63" by (simp add: m63_def mask_eq_exp_minus_1)
  then have "unat (x AND m63) = unat (x AND mask 63)" by (rule arg_cong)
  also have "\<dots> = unat x mod 2 ^ 63" by (rule unat_and_mask)
  finally show ?thesis .
qed

lemma unat_and_m62: "unat (x AND m62) = unat x mod 2 ^ 62"
proof -
  have "m62 = mask 62" by (simp add: m62_def mask_eq_exp_minus_1)
  then have "unat (x AND m62) = unat (x AND mask 62)" by (rule arg_cong)
  also have "\<dots> = unat x mod 2 ^ 62" by (rule unat_and_mask)
  finally show ?thesis .
qed

lemma unat_drop_bit_63: "unat (drop_bit 63 (x :: u64)) = unat x div 2 ^ 63"
proof -
  have "unat (drop_bit 63 x) = drop_bit 63 (unat x)" by (rule unat_drop_bit_eq)
  also have "\<dots> = unat x div 2 ^ 63" by (rule drop_bit_eq_div)
  finally show ?thesis .
qed

lemma unat64_lt: "unat (x :: u64) < 2 ^ 64"
  using unsigned_less [of x, where 'a = nat] by simp

lemma poly_step_unfold:
  "poly_step (ah, al) (kh, kl) (mh, ml) =
     (let t3 = MUL64 al kh;
          t2 = MUL64 ah kl;
          t1 = MUL64 ah (2 * kh);
          x0 = MUL64 al kl;
          x = ADD128 (fst x0) (snd x0) (fst t1) (snd t1);
          t = ADD128 (fst t2) (snd t2) (fst t3) (snd t3);
          u = ADD128 (fst t) (fst x) 0 (snd t);
          c = 2 * fst u + drop_bit 63 (snd u);
          y = ADD128 (snd u AND m63) (snd x) mh ml
      in ADD128 (fst y) (snd y) 0 c)"
  by (simp add: poly_step_def PMUL64_def Let_def split_def)

lemma poly_step_arith:
  fixes AH AL KH KL M X XH XL T TH TL UH UL :: nat
  assumes X: "X = AL * KL + 2 * AH * KH" and Xs: "X = XH * 2 ^ 64 + XL"
    and T: "T = AH * KL + AL * KH" and Ts: "T = TH * 2 ^ 64 + TL"
    and U: "UH * 2 ^ 64 + UL = TH * 2 ^ 64 + XH + TL"
    and R: "R = (UL mod 2 ^ 63) * 2 ^ 64 + XL + M + (2 * UH + UL div 2 ^ 63)"
  shows "(AH * 2 ^ 64 + AL) * (KH * 2 ^ 64 + KL) + M = R + (2 * AH * KH + 2 * UH + UL div 2 ^ 63) * (2 ^ 127 - 1)"
proof -
  define top where "top = UL div 2 ^ 63"
  define low where "low = UL mod 2 ^ 63"
  have UL: "UL = top * 2 ^ 63 + low" by (simp add: top_def low_def)
  have e1: "(2::nat) ^ 127 - 1 + 1 = 2 ^ 127" by simp
  have "(AH * 2 ^ 64 + AL) * (KH * 2 ^ 64 + KL) = AH * KH * 2 ^ 128 + T * 2 ^ 64 + AL * KL"
    unfolding T by (simp add: algebra_simps flip: power_add)
  also have "\<dots> = AH * KH * (2 * (2 ^ 127 - 1)) + (X + T * 2 ^ 64)"
    unfolding X by (simp add: algebra_simps)
  also have "X + T * 2 ^ 64 = (UH * 2 ^ 64 + UL) * 2 ^ 64 + XL"
    unfolding U unfolding Xs Ts by (simp add: algebra_simps flip: power_add)
  also have "\<dots> = UH * (2 * (2 ^ 127 - 1)) + top * (2 ^ 127 - 1) + (low * 2 ^ 64 + XL + (2 * UH + top))"
    unfolding UL by (simp add: algebra_simps flip: power_add)
  finally show ?thesis unfolding R top_def [symmetric] low_def [symmetric]
    by (simp add: algebra_simps)
qed

lemma mul_bound_125: "(a::nat) < 2 ^ 64 \<Longrightarrow> k < 2 ^ 61 \<Longrightarrow> a * k \<le> 2 ^ 125"
proof -
  assume "a < 2 ^ 64" "k < 2 ^ 61"
  then have "a * k \<le> 2 ^ 64 * 2 ^ 61" by (intro mult_le_mono) simp_all
  then show ?thesis by simp
qed

lemma val128_ADD128_fs:
  "val128 (ADD128 (fst p) (snd p) (fst q) (snd q)) = (val128 p + val128 q) mod 2 ^ 128"
  using val128_ADD128 [of "fst p" "snd p" "fst q" "snd q"] by simp

lemma poly_step_value:
  assumes kh: "unat kh < 2 ^ 61" and kl: "unat kl < 2 ^ 61" and mh: "unat mh < 2 ^ 62"
  shows "\<exists>q. val128 (ah, al) * val128 (kh, kl) + val128 (mh, ml)
           = val128 (poly_step (ah, al) (kh, kl) (mh, ml)) + q * p127"
    and "val128 (poly_step (ah, al) (kh, kl) (mh, ml)) < 2 ^ 127 + 2 ^ 126 + 2 ^ 64"
proof -
  define t3 where "t3 = MUL64 al kh"
  define t2 where "t2 = MUL64 ah kl"
  define t1 where "t1 = MUL64 ah (2 * kh)"
  define x0 where "x0 = MUL64 al kl"
  define x where "x = ADD128 (fst x0) (snd x0) (fst t1) (snd t1)"
  define t where "t = ADD128 (fst t2) (snd t2) (fst t3) (snd t3)"
  define u where "u = ADD128 (fst t) (fst x) 0 (snd t)"
  define c where "c = 2 * fst u + drop_bit 63 (snd u)"
  define y where "y = ADD128 (snd u AND m63) (snd x) mh ml"
  define r where "r = ADD128 (fst y) (snd y) 0 c"
  have ps: "poly_step (ah, al) (kh, kl) (mh, ml) = r"
    by (simp add: poly_step_unfold Let_def t3_def t2_def t1_def x0_def x_def t_def u_def c_def y_def r_def)
  define AH AL KH KL where "AH = unat ah" and "AL = unat al" and "KH = unat kh" and "KL = unat kl"
  have b: "AH < 2 ^ 64" "AL < 2 ^ 64" "KH < 2 ^ 61" "KL < 2 ^ 61"
    using kh kl unat64_lt [of ah] unat64_lt [of al] by (simp_all add: AH_def AL_def KH_def KL_def)
  have k2: "unat (2 * kh) = 2 * KH"
    using b by (simp add: unat_word_ariths KH_def)
  have v3: "val128 t3 = AL * KH" and v2: "val128 t2 = AH * KL"
    and v1: "val128 t1 = 2 * AH * KH" and v0: "val128 x0 = AL * KL"
    by (simp_all add: t3_def t2_def t1_def x0_def val128_MUL64 k2 AH_def AL_def KH_def KL_def)
  have p1: "AL * KL \<le> 2 ^ 125" "AH * KH \<le> 2 ^ 125"
    "AH * KL \<le> 2 ^ 125" "AL * KH \<le> 2 ^ 125"
    by (rule mul_bound_125 [OF b(2) b(4)], rule mul_bound_125 [OF b(1) b(3)],
        rule mul_bound_125 [OF b(1) b(4)], rule mul_bound_125 [OF b(2) b(3)])
  have vx: "val128 x = AL * KL + 2 * AH * KH"
  proof -
    have "val128 x = (val128 x0 + val128 t1) mod 2 ^ 128"
      unfolding x_def by (rule val128_ADD128_fs)
    then show ?thesis using p1 by (simp add: v0 v1)
  qed
  have vt: "val128 t = AH * KL + AL * KH"
  proof -
    have "val128 t = (val128 t2 + val128 t3) mod 2 ^ 128"
      unfolding t_def by (rule val128_ADD128_fs)
    then show ?thesis using p1 by (simp add: v2 v3)
  qed
  define XH XL TH TL UH UL where "XH = unat (fst x)" and "XL = unat (snd x)"
    and "TH = unat (fst t)" and "TL = unat (snd t)" and "UH = unat (fst u)" and "UL = unat (snd u)"
  have Xs: "AL * KL + 2 * AH * KH = XH * 2 ^ 64 + XL"
    using vx by (simp add: val128_def XH_def XL_def)
  have Ts: "AH * KL + AL * KH = TH * 2 ^ 64 + TL"
    using vt by (simp add: val128_def TH_def TL_def)
  have w: "XH < 2 ^ 64" "XL < 2 ^ 64" "TL < 2 ^ 64" "UL < 2 ^ 64"
    using unat64_lt [of "fst x"] unat64_lt [of "snd x"] unat64_lt [of "snd t"] unat64_lt [of "snd u"]
    by (simp_all add: XH_def XL_def TL_def UL_def)
  have TH: "TH \<le> 2 ^ 62"
  proof -
    have "TH * 2 ^ 64 \<le> 2 ^ 62 * 2 ^ 64" using Ts p1 by simp
    then show ?thesis by simp
  qed
  have U: "UH * 2 ^ 64 + UL = TH * 2 ^ 64 + XH + TL"
  proof -
    have "val128 u = (val128 (fst t, fst x) + val128 (0, snd t)) mod 2 ^ 128"
      unfolding u_def by (rule val128_ADD128)
    moreover have "TH * 2 ^ 64 \<le> 2 ^ 62 * 2 ^ 64" using TH by simp
    ultimately show ?thesis using w
      by (simp add: val128_def XH_def TH_def TL_def UH_def UL_def)
  qed
  have UH: "UH \<le> 2 ^ 62 + 1"
  proof -
    have "UH * 2 ^ 64 < (2 ^ 62 + 2) * 2 ^ 64" using U TH w by simp
    then have "UH < 2 ^ 62 + 2" by (simp only: mult_less_cancel2)
    then show ?thesis by simp
  qed
  have top: "UL div 2 ^ 63 \<le> 1" using w by (simp add: div_le_mono less_mult_imp_div_less le_simps)
  have C: "unat c = 2 * UH + UL div 2 ^ 63"
  proof -
    have "unat c = (2 * UH mod 2 ^ 64 + UL div 2 ^ 63) mod 2 ^ 64"
      unfolding c_def by (simp add: unat_word_ariths unat_drop_bit_63 UH_def UL_def)
    then show ?thesis using UH top by simp
  qed
  have Y: "val128 y = (UL mod 2 ^ 63) * 2 ^ 64 + XL + val128 (mh, ml)"
  proof -
    have "val128 y = (val128 (snd u AND m63, snd x) + val128 (mh, ml)) mod 2 ^ 128"
      unfolding y_def by (rule val128_ADD128)
    moreover have "UL mod 2 ^ 63 < 2 ^ 63" by simp
    moreover have "val128 (mh, ml) < 2 ^ 126"
      using mh unat64_lt [of ml] by (simp add: val128_def)
    ultimately show ?thesis using w
      by (simp add: val128_def unat_and_m63 UL_def XL_def)
  qed
  have Yb: "val128 y < 2 ^ 127 + 2 ^ 126"
  proof -
    have "UL mod 2 ^ 63 \<le> 2 ^ 63 - 1" by simp
    moreover have "val128 (mh, ml) < 2 ^ 126"
      using mh unat64_lt [of ml] by (simp add: val128_def)
    ultimately show ?thesis using w Y by simp
  qed
  have R: "val128 r = (UL mod 2 ^ 63) * 2 ^ 64 + XL + val128 (mh, ml) + (2 * UH + UL div 2 ^ 63)"
  proof -
    have "val128 r = (val128 y + val128 (0, c)) mod 2 ^ 128"
      unfolding r_def using val128_ADD128_fs [of y "(0, c)"] by simp
    moreover have "val128 (0, c) < 2 ^ 64" using unat64_lt [of c] by (simp add: val128_def)
    ultimately show ?thesis using Yb Y C by (simp add: val128_def)
  qed
  have "(AH * 2 ^ 64 + AL) * (KH * 2 ^ 64 + KL) + val128 (mh, ml)
      = val128 r + (2 * AH * KH + 2 * UH + UL div 2 ^ 63) * (2 ^ 127 - 1)"
    by (rule poly_step_arith [OF refl Xs refl Ts U R])
  then show "\<exists>q. val128 (ah, al) * val128 (kh, kl) + val128 (mh, ml)
           = val128 (poly_step (ah, al) (kh, kl) (mh, ml)) + q * p127"
    unfolding ps p127_def val128_def AH_def AL_def KH_def KL_def fst_conv snd_conv by blast
  have "val128 (0, c) < 2 ^ 64" using unat64_lt [of c] by (simp add: val128_def)
  then show "val128 (poly_step (ah, al) (kh, kl) (mh, ml)) < 2 ^ 127 + 2 ^ 126 + 2 ^ 64"
    unfolding ps using R Y Yb C by (simp add: val128_def)
qed

lemma masked_lt_2p61: "k AND mpoly = k \<Longrightarrow> unat k < 2 ^ 61"
proof -
  assume a: "k AND mpoly = k"
  have "k AND mpoly \<le> mpoly" by (rule word_and_le1)
  then have "unat k \<le> unat mpoly" using a by (simp add: word_le_nat_alt)
  then show ?thesis by (simp add: mpoly_def)
qed


section \<open>C4: the polynomial step\<close>

text \<open>
  C4, as amended. For a key whose two words carry the mask \<open>mpoly\<close> (every 32-bit lane
  below \<open>2^29\<close>) and a message with \<open>m_hi < 2^62\<close>, \<open>poly_step\<close> returns a pair whose
  128-bit value \<open>a_hi' * 2^64 + a_lo'\<close> is congruent to \<open>a * k + m\<close> modulo
  \<open>p127 = 2^127 - 1\<close>, for every accumulator \<open>a\<close> (no bound on \<open>a_hi\<close> is needed), and
  \<open>a_hi' \<le> 2^63 + 2^62\<close>. The bound \<open>a_hi' < 2^63\<close> is not re-established: bit 63 of
  the result may be set, and it is folded by the next \<open>poly_step\<close> or by \<open>l3hash\<close>.
\<close>

theorem poly_step_mod_p127:
  assumes kh: "kh AND mpoly = kh" and kl: "kl AND mpoly = kl" and mh: "unat mh < 2 ^ 62"
  shows "val128 (poly_step (ah, al) (kh, kl) (mh, ml)) mod p127
           = (val128 (ah, al) * val128 (kh, kl) + val128 (mh, ml)) mod p127
         \<and> unat (fst (poly_step (ah, al) (kh, kl) (mh, ml))) \<le> 2 ^ 63 + 2 ^ 62"
proof
  obtain q where "val128 (ah, al) * val128 (kh, kl) + val128 (mh, ml)
      = val128 (poly_step (ah, al) (kh, kl) (mh, ml)) + q * p127"
    using poly_step_value(1) [OF masked_lt_2p61 [OF kh] masked_lt_2p61 [OF kl] mh] by blast
  then show "val128 (poly_step (ah, al) (kh, kl) (mh, ml)) mod p127
           = (val128 (ah, al) * val128 (kh, kl) + val128 (mh, ml)) mod p127"
    by simp
next
  have "val128 (poly_step (ah, al) (kh, kl) (mh, ml)) < 2 ^ 127 + 2 ^ 126 + 2 ^ 64"
    by (rule poly_step_value(2) [OF masked_lt_2p61 [OF kh] masked_lt_2p61 [OF kl] mh])
  then have "unat (fst (poly_step (ah, al) (kh, kl) (mh, ml))) * 2 ^ 64 < (2 ^ 63 + 2 ^ 62 + 1) * 2 ^ 64"
    by (simp add: val128_def)
  then have "unat (fst (poly_step (ah, al) (kh, kl) (mh, ml))) < 2 ^ 63 + 2 ^ 62 + 1"
    by (simp only: mult_less_cancel2)
  then show "unat (fst (poly_step (ah, al) (kh, kl) (mh, ml))) \<le> 2 ^ 63 + 2 ^ 62" by simp
qed


text \<open>
  C4, counterexample to the postcondition \<open>a_hi' < 2^63\<close>: the input
  \<open>a = (7, 0)\<close>, \<open>k = (0, 0x1fffffff1fffffff)\<close>, \<open>m = (0x3fffffffffffffff, 0)\<close> meets
  every precondition of the claim, and \<open>poly_step\<close> returns
  \<open>a_hi' = 0x9ffffff9dffffff8\<close>, which is not below \<open>2^63\<close>.
\<close>

theorem poly_step_postcondition_counterexample:
  "unat (7 :: u64) < 2 ^ 63 \<and> (0 :: u64) AND mpoly = 0
   \<and> (0x1fffffff1fffffff :: u64) AND mpoly = 0x1fffffff1fffffff
   \<and> unat (0x3fffffffffffffff :: u64) < 2 ^ 62
   \<and> \<not> unat (fst (poly_step (7, 0) (0, 0x1fffffff1fffffff) (0x3fffffffffffffff, 0))) < 2 ^ 63"
  by (simp add: poly_step_def PMUL64_def MUL64_def ADD128_def Let_def m63_def mpoly_def)


text \<open>C4, witness: the amended statement at the same input.\<close>

theorem poly_step_mod_p127_witness:
  "(0 :: u64) AND mpoly = 0 \<and> (0x1fffffff1fffffff :: u64) AND mpoly = 0x1fffffff1fffffff
   \<and> unat (0x3fffffffffffffff :: u64) < 2 ^ 62
   \<and> val128 (poly_step (7, 0) (0, 0x1fffffff1fffffff) (0x3fffffffffffffff, 0)) mod p127
       = (val128 (7, 0) * val128 (0, 0x1fffffff1fffffff) + val128 (0x3fffffffffffffff, 0)) mod p127
   \<and> unat (fst (poly_step (7, 0) (0, 0x1fffffff1fffffff) (0x3fffffffffffffff, 0))) \<le> 2 ^ 63 + 2 ^ 62"
proof -
  have 1: "(0 :: u64) AND mpoly = 0" by simp
  have 2: "(0x1fffffff1fffffff :: u64) AND mpoly = 0x1fffffff1fffffff" by (simp add: mpoly_def)
  have 3: "unat (0x3fffffffffffffff :: u64) < 2 ^ 62" by simp
  show ?thesis using poly_step_mod_p127 [OF 1 2 3, of 7 0 0] 1 2 3 by simp
qed


end
